theory Spec2Isabelle
  imports Complex_Main "HOL-Library.Sublist"
begin

section \<open>JavaScript strings\<close>

text \<open>
  A JavaScript string is modelled as a \<^typ>\<open>string\<close>, a list of 8-bit characters: the
  code units up to U+00FF. \<open>trim\<close> removes the white space and line terminators of
  that range from both ends; \<open>toLowerCase\<close> maps the capital letters of that range
  (A to Z, and U+00C0 to U+00DE without the multiplication sign U+00D7) to their small
  letters, which lie 32 code units higher.
\<close>

definition isWhiteSpace :: "char \<Rightarrow> bool" where
  "isWhiteSpace c = ((of_char c :: nat) \<in> {9, 10, 11, 12, 13, 32, 160})"

definition trim :: "string \<Rightarrow> string" where
  "trim s = rev (dropWhile isWhiteSpace (rev (dropWhile isWhiteSpace s)))"

definition toLowerCase_char :: "char \<Rightarrow> char" where
  "toLowerCase_char c =
     (let n = (of_char c :: nat)
      in if (65 \<le> n \<and> n \<le> 90) \<or> (192 \<le> n \<and> n \<le> 222 \<and> n \<noteq> 215)
         then char_of (n + 32) else c)"

definition toLowerCase :: "string \<Rightarrow> string" where
  "toLowerCase s = map toLowerCase_char s"

text \<open>\<open>Array.prototype.findIndex\<close>: the first position whose element passes, or -1.\<close>

fun findIndex :: "('a \<Rightarrow> bool) \<Rightarrow> 'a list \<Rightarrow> int" where
  "findIndex P [] = - 1"
| "findIndex P (x # xs) =
     (if P x then 0 else (let i = findIndex P xs in if i = - 1 then - 1 else i + 1))"

section \<open>The application container (App): the collection of cities\<close>

datatype UnitSystem = imperial | metric

record City =
  city_id :: string
  city_name :: string

text \<open>
  The two notices the container raises with \<open>Alert.alert\<close>: "City Exists" (with the
  city name) and "Cannot Delete".
\<close>

datatype notice = AlreadyExists string | LastLocation

text \<open>
  What a handler does besides updating the state: an alert, dismissing the keyboard, a
  scroll request to the list view, and the timer of \<open>addCity\<close>, whose callback scrolls
  the list to its end and closes the menu after the given delay in milliseconds.
\<close>

datatype effect =
    Alert notice
  | KeyboardDismiss
  | ScrollToIndex nat
  | ScrollToEndAndCloseMenuAfter nat

record App =
  cities :: "City list"
  isMenuVisible :: bool
  units :: UnitSystem
  locale_tag :: string

definition initial_cities :: "City list" where
  "initial_cities =
     [\<lparr>city_id = ''Irvine, US'', city_name = ''Irvine,US''\<rparr>,
      \<lparr>city_id = ''London, GB'', city_name = ''London,GB''\<rparr>,
      \<lparr>city_id = ''Tokyo, JP'', city_name = ''Tokyo,JP''\<rparr>]"

definition App_init :: "string \<Rightarrow> App" where
  "App_init l = \<lparr>cities = initial_cities, isMenuVisible = False, units = imperial, locale_tag = l\<rparr>"

text \<open>The settings screen changes the preferences through these two.\<close>

definition changeLocale :: "string \<Rightarrow> App \<Rightarrow> App" where
  "changeLocale newLocale s = s\<lparr>locale_tag := newLocale\<rparr>"

definition setUnits :: "UnitSystem \<Rightarrow> App \<Rightarrow> App" where
  "setUnits u s = s\<lparr>units := u\<rparr>"

definition handleCitySelect :: "string \<Rightarrow> App \<Rightarrow> effect list \<times> App" where
  "handleCitySelect cityId s =
     (let index = findIndex (\<lambda>c. city_id c = cityId) (cities s)
      in ((if index \<noteq> - 1 then [ScrollToIndex (nat index)] else []),
          s\<lparr>isMenuVisible := False\<rparr>))"

definition addCity :: "string \<Rightarrow> App \<Rightarrow> effect list \<times> App" where
  "addCity cityIdentifier s =
     (let newCityName = trim cityIdentifier
      in if newCityName \<noteq> [] \<and>
            find (\<lambda>c. toLowerCase (city_id c) = toLowerCase newCityName) (cities s) = None
         then (let newCity = \<lparr>city_id = newCityName, city_name = newCityName\<rparr>
               in ([KeyboardDismiss, ScrollToEndAndCloseMenuAfter 300],
                   s\<lparr>cities := cities s @ [newCity]\<rparr>))
         else if newCityName \<noteq> [] then ([Alert (AlreadyExists newCityName)], s)
         else ([], s))"

definition deleteCity :: "string \<Rightarrow> App \<Rightarrow> effect list \<times> App" where
  "deleteCity idToDelete s =
     (if length (cities s) \<le> 1 then ([Alert LastLocation], s)
      else ([], s\<lparr>cities := filter (\<lambda>city. city_id city \<noteq> idToDelete) (cities s)\<rparr>))"

text \<open>A user session on the collection: a sequence of add and delete requests.\<close>

datatype operation = Add string | Delete string

fun apply_operation :: "operation \<Rightarrow> App \<Rightarrow> App" where
  "apply_operation (Add x) s = snd (addCity x s)"
| "apply_operation (Delete x) s = snd (deleteCity x s)"

definition run_operations :: "operation list \<Rightarrow> App \<Rightarrow> App" where
  "run_operations ops s = fold apply_operation ops s"

section \<open>The single-file variant (Index): cities are plain strings\<close>

record Index =
  Index_cities :: "string list"
  Index_units :: UnitSystem
  Index_activeIndex :: nat
  Index_isMenuVisible :: bool

definition Index_init :: Index where
  "Index_init = \<lparr>Index_cities = [''Irvine'', ''London'', ''Tokyo''], Index_units = imperial,
     Index_activeIndex = 0, Index_isMenuVisible = False\<rparr>"

text \<open>
  \<open>onViewableItemsChanged\<close>: the list view reports the items in view, each with its
  index or null; the first one becomes the active index (\<open>index ?? 0\<close>).
\<close>

definition Index_onViewableItemsChanged :: "nat option list \<Rightarrow> Index \<Rightarrow> Index" where
  "Index_onViewableItemsChanged viewableItems s =
     (if length viewableItems > 0
      then s\<lparr>Index_activeIndex := (case hd viewableItems of Some i \<Rightarrow> i | None \<Rightarrow> 0)\<rparr>
      else s)"

text \<open>
  Here \<open>find\<close> returns the matching string itself, and an empty string is falsy, so the
  negated test passes when nothing is found or when the match is the empty string.
\<close>

definition Index_addCity :: "string \<Rightarrow> Index \<Rightarrow> effect list \<times> Index" where
  "Index_addCity city s =
     (let newCity = trim city
      in if newCity \<noteq> [] \<and>
            (case find (\<lambda>c. toLowerCase c = toLowerCase newCity) (Index_cities s) of
               None \<Rightarrow> True | Some c \<Rightarrow> c = [])
         then ([KeyboardDismiss, ScrollToEndAndCloseMenuAfter 500],
               s\<lparr>Index_cities := Index_cities s @ [newCity]\<rparr>)
         else if newCity \<noteq> [] then ([Alert (AlreadyExists newCity)], s)
         else ([], s))"

definition Index_deleteCity :: "nat \<Rightarrow> Index \<Rightarrow> effect list \<times> Index" where
  "Index_deleteCity indexToDelete s =
     (if length (Index_cities s) \<le> 1 then ([Alert LastLocation], s)
      else ([], s\<lparr>Index_cities :=
                    map snd (filter (\<lambda>(index, c). index \<noteq> indexToDelete)
                                    (enumerate 0 (Index_cities s)))\<rparr>))"

datatype Index_operation = Index_Add string | Index_Delete nat

fun Index_apply_operation :: "Index_operation \<Rightarrow> Index \<Rightarrow> Index" where
  "Index_apply_operation (Index_Add x) s = snd (Index_addCity x s)"
| "Index_apply_operation (Index_Delete i) s = snd (Index_deleteCity i s)"

definition Index_run_operations :: "Index_operation list \<Rightarrow> Index \<Rightarrow> Index" where
  "Index_run_operations ops s = fold Index_apply_operation ops s"

text \<open>
  The invariant of the collection that \<open>deleteCity\<close> relies on: it removes by id, so a
  single removal needs the ids to be pairwise different.
\<close>

definition collection_ok :: "City list \<Rightarrow> bool" where
  "collection_ok cs = (cs \<noteq> [] \<and> distinct (map city_id cs))"

section \<open>The weather page of one city (WeatherPage)\<close>

text \<open>
  The text kept in the \<open>error\<close> state: a translation, named by its key (and the city
  for \<open>errorCityNotFound\<close>), the message of an exception raised by \<open>fetch\<close> or
  \<open>json\<close>, or the message the engine gives to a \<open>TypeError\<close> of its own.
\<close>

datatype message =
  errorCityNotFound string | errorApiKey | errorDefault | Raw string | TypeErrorText



text \<open>
  What the \<open>catch\<close> clause may receive: an \<open>Error\<close> with its own message, thrown by
  \<open>fetch\<close> or \<open>json\<close>; a \<open>TypeError\<close> that the engine raises inside the \<open>try\<close>
  block, on reading a property of \<open>null\<close> or \<open>undefined\<close>; or a value that is no
  \<open>Error\<close>. The clause shows the message of an error and the translation
  \<open>errorDefault\<close> otherwise:
  \<open>err instanceof Error ? err.message : i18n.t('errorDefault')\<close>.
\<close>

datatype thrown = ErrorObject string | TypeError | NonError


datatype 'a awaited = Rejected thrown | Resolved 'a


record GeoEntry =
  lat :: real
  lon :: real
  geo_name :: string
  geo_country :: string
  geo_state :: "string option"
  local_names :: "(string \<times> string) list option"

record 'w WeatherData =
  fetched :: 'w
  wd_name :: string
  wd_country :: string

text \<open>
  The body of a geocoding answer is untyped. Its shapes, as far as \<open>fetchWeather\<close>
  tells them apart: \<open>null\<close>; a value that is no list and has neither a \<open>length\<close> nor
  an element 0 (a number, a boolean, or an object such as the report
  \<open>{cod, message}\<close> that the endpoint sends with an error status); and a list, whose
  elements are entries or \<open>null\<close>. A text, and an object that has a property
  \<open>length\<close> or \<open>0\<close>, are not among the bodies of this model.
\<close>

datatype geo_body = BodyNull | BodyOther | BodyList "GeoEntry option list"


text \<open>
  \<open>const { lat, lon, name, country, local_names } = geoData[0]\<close>: the element 0 is
  \<open>undefined\<close> when there is none, and destructuring \<open>undefined\<close> or \<open>null\<close>
  raises a \<open>TypeError\<close>.
\<close>

fun destructure_0 :: "geo_body \<Rightarrow> thrown + GeoEntry" where
  "destructure_0 (BodyList (Some g # xs)) = Inr g"
| "destructure_0 body = Inl TypeError"










record 'w WeatherPage =
  prop_city :: City
  prop_lang :: string
  prop_units :: UnitSystem
  weatherData :: "'w WeatherData option"
  loading :: bool
  error :: "message option"

text \<open>
  \<open>fetchWeather\<close> writes the state twice: when it is called, before its first
  \<open>await\<close>, and when its last \<open>await\<close> has settled (the \<open>catch\<close> and \<open>finally\<close> run in
  the same turn). Between the two, other handlers may run.
\<close>

definition fetchWeather_begin :: "'w WeatherPage \<Rightarrow> 'w WeatherPage" where
  "fetchWeather_begin p = p\<lparr>loading := True, error := None\<rparr>"

definition fetchWeather_complete ::
  "message + 'w WeatherData \<Rightarrow> 'w WeatherPage \<Rightarrow> 'w WeatherPage" where
  "fetchWeather_complete r p =
     (case r of
        Inr d \<Rightarrow> p\<lparr>weatherData := Some d\<rparr>
      | Inl msg \<Rightarrow> p\<lparr>error := Some msg\<rparr>)\<lparr>loading := False\<rparr>"

text \<open>Mounting a page: the initial state, then the effect calls \<open>fetchWeather\<close>.\<close>

definition WeatherPage_mount :: "City \<Rightarrow> string \<Rightarrow> UnitSystem \<Rightarrow> 'w WeatherPage" where
  "WeatherPage_mount city lang units' =
     fetchWeather_begin \<lparr>prop_city = city, prop_lang = lang, prop_units = units',
       weatherData = None, loading = True, error = None\<rparr>"

text \<open>
  A render with new props: \<open>fetchWeather\<close> is rebuilt when \<open>city\<close>, \<open>lang\<close> or \<open>units\<close>
  changed, and the effect that depends on it then calls it.
\<close>

definition WeatherPage_render ::
  "City \<Rightarrow> string \<Rightarrow> UnitSystem \<Rightarrow> 'w WeatherPage \<Rightarrow> 'w WeatherPage" where
  "WeatherPage_render city lang units' p =
     (if city = prop_city p \<and> lang = prop_lang p \<and> units' = prop_units p then p
      else fetchWeather_begin (p\<lparr>prop_city := city, prop_lang := lang, prop_units := units'\<rparr>))"

text \<open>
  What the page shows: the spinner while \<open>loading\<close>, the error text if there is one,
  and the weather if there is any, its wind speed labelled after the current units.
\<close>

record 'w shown =
  spinner :: bool
  errorText :: "message option"
  content :: "('w WeatherData \<times> string) option"

definition WeatherPage_view :: "'w WeatherPage \<Rightarrow> 'w shown" where
  "WeatherPage_view p =
     \<lparr>spinner = loading p,
      errorText = error p,
      content = (case weatherData p of
                   None \<Rightarrow> None
                 | Some d \<Rightarrow> Some (d, if prop_units p = imperial then ''mph'' else ''m/s''))\<rparr>"




section \<open>The pager (WeatherSwiper)\<close>

record WeatherSwiper =
  activeIndex :: nat

definition onViewableItemsChanged :: "nat option list \<Rightarrow> WeatherSwiper \<Rightarrow> WeatherSwiper" where
  "onViewableItemsChanged viewableItems w =
     (if length viewableItems > 0
      then w\<lparr>activeIndex := (case hd viewableItems of Some i \<Rightarrow> i | None \<Rightarrow> 0)\<rparr>
      else w)"

text \<open>
  \<open>renderItem\<close>: the pager renders the page of each city with the language and the
  units of the container.
\<close>

definition renderItem :: "App \<Rightarrow> 'w WeatherPage \<Rightarrow> 'w WeatherPage" where
  "renderItem s p = WeatherPage_render (prop_city p) (locale_tag s) (units s) p"

section \<open>The city menu (MenuScreen): suggestions and their selection\<close>

record Suggestion =
  sug_name :: string
  sug_country :: string
  sug_state :: "string option"

text \<open>
  The loop of \<open>fetchSuggestions\<close> over the geocoding results. The \<open>Map\<close> is a list
  of entries in insertion order; an item is stored under \<open>name,country\<close> unless the
  key is there already, and \<open>Array.from(map.values())\<close> reads the values in order.
\<close>

definition suggestion_key :: "GeoEntry \<Rightarrow> string" where
  "suggestion_key item = geo_name item @ '','' @ geo_country item"

definition suggestion_of :: "GeoEntry \<Rightarrow> Suggestion" where
  "suggestion_of item =
     \<lparr>sug_name = geo_name item, sug_country = geo_country item, sug_state = geo_state item\<rparr>"

definition suggestion_put ::
  "GeoEntry \<Rightarrow> (string \<times> Suggestion) list \<Rightarrow> (string \<times> Suggestion) list" where
  "suggestion_put item m =
     (let key = suggestion_key item
      in if map_of m key = None then m @ [(key, suggestion_of item)] else m)"

definition unique_suggestions :: "GeoEntry list \<Rightarrow> Suggestion list" where
  "unique_suggestions data = map snd (fold suggestion_put data [])"

text \<open>
  The state of the menu, with two additions that make the timer and the network
  visible: \<open>timer\<close> is the pending \<open>setTimeout\<close>, as the time it is due (in
  milliseconds) and the query it will look up; \<open>issued\<close> lists the queries sent to the
  geocoding endpoint so far.
\<close>

record MenuScreen =
  searchInput :: string
  suggestions :: "Suggestion list"
  timer :: "(nat \<times> string) option"
  issued :: "string list"

definition MenuScreen_init :: MenuScreen where
  "MenuScreen_init = \<lparr>searchInput = [], suggestions = [], timer = None, issued = []\<rparr>"

text \<open>\<open>fetchSuggestions\<close> up to its \<open>fetch\<close>, and its continuation on the answer
  (\<open>None\<close> is a falsy body).\<close>

definition fetchSuggestions :: "string \<Rightarrow> MenuScreen \<Rightarrow> MenuScreen" where
  "fetchSuggestions query m =
     (if length query < 3 then m\<lparr>suggestions := []\<rparr>
      else m\<lparr>issued := issued m @ [query]\<rparr>)"

definition fetchSuggestions_answer ::
  "GeoEntry list option awaited \<Rightarrow> MenuScreen \<Rightarrow> MenuScreen" where
  "fetchSuggestions_answer r m =
     (case r of
        Rejected e \<Rightarrow> m\<lparr>suggestions := []\<rparr>
      | Resolved None \<Rightarrow> m
      | Resolved (Some data) \<Rightarrow> m\<lparr>suggestions := unique_suggestions data\<rparr>)"

text \<open>
  The effect on \<open>searchInput\<close>. \<open>setSearchInput\<close> with the value already held changes
  nothing; otherwise the cleanup of the previous effect clears its timer and the effect
  runs again at the current time.
\<close>

definition searchInput_effect :: "nat \<Rightarrow> MenuScreen \<Rightarrow> MenuScreen" where
  "searchInput_effect now m =
     (if length (trim (searchInput m)) > 2
      then m\<lparr>timer := Some (now + 300, searchInput m)\<rparr>
      else m\<lparr>suggestions := []\<rparr>)"

definition setSearchInput :: "nat \<Rightarrow> string \<Rightarrow> MenuScreen \<Rightarrow> MenuScreen" where
  "setSearchInput now text m =
     (if text = searchInput m then m
      else searchInput_effect now (m\<lparr>searchInput := text, timer := None\<rparr>))"

text \<open>Time passes up to \<open>now\<close>: a timer that is due runs its callback.\<close>

definition elapse :: "nat \<Rightarrow> MenuScreen \<Rightarrow> MenuScreen" where
  "elapse now m =
     (case timer m of
        None \<Rightarrow> m
      | Some (due, query) \<Rightarrow>
          if due \<le> now then fetchSuggestions query (m\<lparr>timer := None\<rparr>) else m)"

text \<open>A keystroke at a given time changes the text of the input to a new value.\<close>

definition keystroke :: "nat \<times> string \<Rightarrow> MenuScreen \<Rightarrow> MenuScreen" where
  "keystroke k m = setSearchInput (fst k) (snd k) (elapse (fst k) m)"

definition typing :: "(nat \<times> string) list \<Rightarrow> MenuScreen \<Rightarrow> MenuScreen" where
  "typing ks m = fold keystroke ks m"

text \<open>
  \<open>handleSelectSuggestion\<close>, with the callbacks the container passes to the menu:
  \<open>onCitySelect\<close> is \<open>handleCitySelect\<close>, \<open>onAddCity\<close> is \<open>addCity\<close> and \<open>savedCities\<close>
  is \<open>cities\<close>.
\<close>

definition handleSelectSuggestion ::
  "nat \<Rightarrow> Suggestion \<Rightarrow> App \<times> MenuScreen \<Rightarrow> effect list \<times> App \<times> MenuScreen" where
  "handleSelectSuggestion now city sm =
     (let s = fst sm; m = snd sm;
          cityIdentifier = sug_name city @ '', '' @ sug_country city;
          existingCity =
            find (\<lambda>c. toLowerCase (city_id c) = toLowerCase cityIdentifier) (cities s);
          r = (case existingCity of
                 Some c \<Rightarrow> handleCitySelect (city_id c) s
               | None \<Rightarrow> addCity cityIdentifier s)
      in (fst r, snd r, (setSearchInput now [] m)\<lparr>suggestions := []\<rparr>))"

text \<open>
  The three components together: the container, its menu and the pager, which alone
  holds the active index. A press on a suggestion runs \<open>handleSelectSuggestion\<close>,
  which has the callbacks of the container and the state of the menu at hand, and not
  the state of the pager; a report of the list view runs \<open>onViewableItemsChanged\<close>.
\<close>

record Screen =
  app :: App
  menu :: MenuScreen
  swiper :: WeatherSwiper

definition Screen_handleSelectSuggestion ::
  "nat \<Rightarrow> Suggestion \<Rightarrow> Screen \<Rightarrow> effect list \<times> Screen" where
  "Screen_handleSelectSuggestion now city sc =
     (let r = handleSelectSuggestion now city (app sc, menu sc)
      in (fst r, sc\<lparr>app := fst (snd r), menu := snd (snd r)\<rparr>))"

definition Screen_onViewableItemsChanged :: "nat option list \<Rightarrow> Screen \<Rightarrow> Screen" where
  "Screen_onViewableItemsChanged viewableItems sc =
     sc\<lparr>swiper := onViewableItemsChanged viewableItems (swiper sc)\<rparr>"

text \<open>
  The state of the debounce during a burst of keystrokes that began at time \<open>t0\<close> and
  is over well before \<open>T\<close>: nothing was sent since, and the pending timer is the one of
  the current input, due between \<open>t0 + 300\<close> and \<open>T\<close>, or there is none and the
  current input is too short.
\<close>

definition debouncing :: "nat \<Rightarrow> nat \<Rightarrow> string list \<Rightarrow> MenuScreen \<Rightarrow> bool" where
  "debouncing t0 T sent m =
     (issued m = sent \<and>
      (case timer m of
         None \<Rightarrow> length (trim (searchInput m)) \<le> 2
       | Some (due, query) \<Rightarrow>
           t0 + 300 \<le> due \<and> due \<le> T \<and> query = searchInput m \<and>
           2 < length (trim (searchInput m))))"

section \<open>What the design asks for, in its own words\<close>

text \<open>
  Deduplication by a key, first occurrence kept, order kept: walking the input, an
  item is kept exactly when no earlier item has its key.
\<close>

fun first_occurrences_from :: "('a \<Rightarrow> 'k) \<Rightarrow> 'a list \<Rightarrow> 'a list \<Rightarrow> 'a list" where
  "first_occurrences_from f seen [] = []"
| "first_occurrences_from f seen (x # xs) =
     (if f x \<in> f ` set seen then first_occurrences_from f seen xs
      else x # first_occurrences_from f (x # seen) xs)"

definition first_occurrences :: "('a \<Rightarrow> 'k) \<Rightarrow> 'a list \<Rightarrow> 'a list" where
  "first_occurrences f xs = first_occurrences_from f [] xs"

definition name_and_country :: "GeoEntry \<Rightarrow> string \<times> string" where
  "name_and_country item = (geo_name item, geo_country item)"

text \<open>
  The active index the design asks for after the entry at position \<open>i\<close> is deleted
  while \<open>a\<close> is active: one less (never below 0) when \<open>i \<le> a\<close>, else the same.
\<close>

definition spec_activeIndex_after_delete :: "nat \<Rightarrow> nat \<Rightarrow> nat" where
  "spec_activeIndex_after_delete i a = (if i \<le> a then a - 1 else a)"

section \<open>Properties of the collection\<close>


lemma length_trim_le: "length (trim s) \<le> length s"
proof -
  have "length (trim s) \<le> length (dropWhile isWhiteSpace s)"
    unfolding trim_def by (metis length_dropWhile_le length_rev)
  also have "\<dots> \<le> length s" by (rule length_dropWhile_le)
  finally show ?thesis .
qed

lemma find_None_set: "find P xs = None \<longleftrightarrow> (\<forall>x\<in>set xs. \<not> P x)"
  by (auto simp: find_None_iff)

lemma filter_key_le_one:
  "distinct (map f xs) \<Longrightarrow> length (filter (\<lambda>x. f x = k) xs) \<le> 1"
proof (induction xs)
  case Nil
  then show ?case by simp
next
  case (Cons a xs)
  show ?case
  proof (cases "f a = k")
    case True
    with Cons.prems have "k \<notin> f ` set xs" by simp
    then have "\<forall>x\<in>set xs. f x \<noteq> k" by blast
    then have "filter (\<lambda>x. f x = k) xs = []" by (simp add: filter_empty_conv)
    with True show ?thesis by simp
  next
    case False
    with Cons show ?thesis by simp
  qed
qed

lemma filter_other_keys_length:
  assumes "distinct (map f xs)"
  shows "length xs \<le> Suc (length (filter (\<lambda>x. f x \<noteq> k) xs))"
proof -
  have "length xs = length (filter (\<lambda>x. f x = k) xs) + length (filter (\<lambda>x. \<not> f x = k) xs)"
    by (rule sum_length_filter_compl [symmetric])
  with filter_key_le_one [OF assms, of k] show ?thesis by simp
qed

lemma addCity_cases:
  "addCity x s =
     (if trim x = [] then ([], s)
      else if \<exists>c\<in>set (cities s). toLowerCase (city_id c) = toLowerCase (trim x)
           then ([Alert (AlreadyExists (trim x))], s)
           else ([KeyboardDismiss, ScrollToEndAndCloseMenuAfter 300],
                 s\<lparr>cities := cities s @ [\<lparr>city_id = trim x, city_name = trim x\<rparr>]\<rparr>))"
  by (auto simp: addCity_def Let_def find_None_set)

lemma addCity_collection_ok:
  assumes "collection_ok (cities s)"
  shows "collection_ok (cities (snd (addCity x s)))"
proof -
  have "trim x \<notin> city_id ` set (cities s)"
    if "\<forall>c\<in>set (cities s). toLowerCase (city_id c) \<noteq> toLowerCase (trim x)"
    using that by auto
  with assms show ?thesis
    by (auto simp: addCity_cases collection_ok_def)
qed

lemma deleteCity_collection_ok:
  assumes "collection_ok (cities s)"
  shows "collection_ok (cities (snd (deleteCity x s)))"
proof (cases "length (cities s) \<le> 1")
  case True
  with assms show ?thesis by (simp add: deleteCity_def)
next
  case False
  from assms have d: "distinct (map city_id (cities s))" by (simp add: collection_ok_def)
  from filter_other_keys_length [OF d, of x] False
  have "filter (\<lambda>c. city_id c \<noteq> x) (cities s) \<noteq> []" by auto
  with d False show ?thesis
    by (simp add: deleteCity_def collection_ok_def distinct_map_filter)
qed

lemma run_operations_collection_ok:
  "collection_ok (cities s) \<Longrightarrow> collection_ok (cities (run_operations ops s))"
proof (induction ops arbitrary: s)
  case Nil
  then show ?case by (simp add: run_operations_def)
next
  case (Cons a ops)
  have "collection_ok (cities (apply_operation a s))"
    using Cons.prems by (cases a) (simp_all add: addCity_collection_ok deleteCity_collection_ok)
  from Cons.IH [OF this] show ?case by (simp add: run_operations_def)
qed

lemma Index_deleteCity_nonempty:
  assumes "Index_cities t \<noteq> []"
  shows "Index_cities (snd (Index_deleteCity i t)) \<noteq> []"
proof (cases "length (Index_cities t) \<le> 1")
  case True
  with assms show ?thesis by (simp add: Index_deleteCity_def)
next
  case False
  have d: "distinct (map fst (enumerate 0 (Index_cities t)))" by simp
  have "(\<lambda>(index, c). index \<noteq> i) = (\<lambda>p::nat \<times> string. fst p \<noteq> i)" by auto
  with filter_other_keys_length [OF d, of i] False
  have "filter (\<lambda>(index, c). index \<noteq> i) (enumerate 0 (Index_cities t)) \<noteq> []" by auto
  with False show ?thesis by (simp add: Index_deleteCity_def)
qed

lemma Index_addCity_nonempty:
  "Index_cities t \<noteq> [] \<Longrightarrow> Index_cities (snd (Index_addCity x t)) \<noteq> []"
  by (simp add: Index_addCity_def Let_def)

lemma Index_run_operations_nonempty:
  "Index_cities t \<noteq> [] \<Longrightarrow> Index_cities (Index_run_operations ops t) \<noteq> []"
proof (induction ops arbitrary: t)
  case Nil
  then show ?case by (simp add: Index_run_operations_def)
next
  case (Cons a ops)
  have "Index_cities (Index_apply_operation a t) \<noteq> []"
    using Cons.prems by (cases a) (simp_all add: Index_addCity_nonempty Index_deleteCity_nonempty)
  from Cons.IH [OF this] show ?case by (simp add: Index_run_operations_def)
qed

text \<open>
  Claim C1. Starting from a collection that is not empty and whose ids are pairwise
  different (the initial collection is such a one), every sequence of \<open>addCity\<close> and
  \<open>deleteCity\<close> requests leaves at least one city; and whenever exactly one city is
  left, \<open>deleteCity\<close> raises the "Cannot Delete" alert (LastLocation) and changes
  nothing. The same holds for the variant that keeps plain strings and deletes by
  position, from any collection that is not empty.
\<close>

theorem collection_never_empty:
  assumes "cities s \<noteq> []" and "distinct (map city_id (cities s))" and "Index_cities t \<noteq> []"
  shows "1 \<le> length (cities (run_operations ops s)) \<and>
         (length (cities (run_operations ops s)) = 1 \<longrightarrow>
            deleteCity x (run_operations ops s) = ([Alert LastLocation], run_operations ops s)) \<and>
         1 \<le> length (Index_cities (Index_run_operations iops t)) \<and>
         (length (Index_cities (Index_run_operations iops t)) = 1 \<longrightarrow>
            Index_deleteCity i (Index_run_operations iops t) =
              ([Alert LastLocation], Index_run_operations iops t))"
proof -
  from assms(1,2) have "collection_ok (cities s)" by (simp add: collection_ok_def)
  then have "collection_ok (cities (run_operations ops s))" by (rule run_operations_collection_ok)
  then have a: "1 \<le> length (cities (run_operations ops s))"
    by (cases "cities (run_operations ops s)") (simp_all add: collection_ok_def)
  from Index_run_operations_nonempty [OF assms(3)]
  have b: "1 \<le> length (Index_cities (Index_run_operations iops t))"
    by (cases "Index_cities (Index_run_operations iops t)") simp_all
  show ?thesis using a b by (simp add: deleteCity_def Index_deleteCity_def)
qed

theorem collection_never_empty_witness:
  "cities (App_init ''en'') \<noteq> [] \<and> distinct (map city_id (cities (App_init ''en''))) \<and>
   Index_cities Index_init \<noteq> [] \<and>
   length (cities (run_operations [Add ''Paris, FR'', Delete ''Irvine, US'', Delete ''London, GB'', Delete ''Paris, FR''] (App_init ''en''))) = 1 \<and>
   deleteCity ''Tokyo, JP'' (run_operations [Add ''Paris, FR'', Delete ''Irvine, US'', Delete ''London, GB'', Delete ''Paris, FR''] (App_init ''en''))
     = ([Alert LastLocation], run_operations [Add ''Paris, FR'', Delete ''Irvine, US'', Delete ''London, GB'', Delete ''Paris, FR''] (App_init ''en'')) \<and>
   length (Index_cities (Index_run_operations [Index_Delete 0, Index_Add ''Paris'', Index_Delete 5, Index_Delete 1, Index_Delete 1] Index_init)) = 1 \<and>
   Index_deleteCity 0 (Index_run_operations [Index_Delete 0, Index_Add ''Paris'', Index_Delete 5, Index_Delete 1, Index_Delete 1] Index_init)
     = ([Alert LastLocation], Index_run_operations [Index_Delete 0, Index_Add ''Paris'', Index_Delete 5, Index_Delete 1, Index_Delete 1] Index_init)"
proof -
  have h1: "cities (App_init ''en'') \<noteq> []" by code_simp
  have h2: "distinct (map city_id (cities (App_init ''en'')))" by code_simp
  have h3: "Index_cities Index_init \<noteq> []" by code_simp
  have l1: "length (cities (run_operations [Add ''Paris, FR'', Delete ''Irvine, US'', Delete ''London, GB'', Delete ''Paris, FR''] (App_init ''en''))) = 1"
    by code_simp
  have l2: "length (Index_cities (Index_run_operations [Index_Delete 0, Index_Add ''Paris'', Index_Delete 5, Index_Delete 1, Index_Delete 1] Index_init)) = 1"
    by code_simp
  from collection_never_empty [OF h1 h2 h3,
      of "[Add ''Paris, FR'', Delete ''Irvine, US'', Delete ''London, GB'', Delete ''Paris, FR'']"
         "''Tokyo, JP''"
         "[Index_Delete 0, Index_Add ''Paris'', Index_Delete 5, Index_Delete 1, Index_Delete 1]" 0]
  show ?thesis using h1 h2 h3 l1 l2 by blast
qed

lemma find_Some_set: "find P xs = Some x \<Longrightarrow> x \<in> set xs \<and> P x"
  by (induction xs) (auto split: if_splits)

lemma Index_addCity_cases:
  "Index_addCity x t =
     (if trim x = [] then ([], t)
      else if \<exists>c\<in>set (Index_cities t). toLowerCase c = toLowerCase (trim x)
           then ([Alert (AlreadyExists (trim x))], t)
           else ([KeyboardDismiss, ScrollToEndAndCloseMenuAfter 500],
                 t\<lparr>Index_cities := Index_cities t @ [trim x]\<rparr>))"
proof -
  have "c \<noteq> []" if "find (\<lambda>c. toLowerCase c = toLowerCase (trim x)) (Index_cities t) = Some c"
    and "trim x \<noteq> []" for c
  proof -
    from that(1) have "toLowerCase c = toLowerCase (trim x)" by (auto dest: find_Some_set)
    with that(2) show ?thesis by (auto simp: toLowerCase_def)
  qed
  then show ?thesis
    by (auto simp: Index_addCity_def Let_def find_None_set split: option.splits dest: find_Some_set)
qed

text \<open>
  Claim C10. An identifier that trims to the empty string makes \<open>addCity\<close> do nothing:
  the state, and so the collection, is the same, and no effect is produced, neither the
  "City Exists" alert nor any other. Both variants behave so.
\<close>

theorem addCity_blank_is_silent:
  assumes "trim x = []"
  shows "addCity x s = ([], s) \<and> Index_addCity x t = ([], t)"
  using assms by (simp add: addCity_cases Index_addCity_cases)

theorem addCity_blank_is_silent_witness:
  "trim ''   '' = [] \<and> addCity ''   '' (App_init ''en'') = ([], App_init ''en'') \<and>
   Index_addCity ''   '' Index_init = ([], Index_init)"
proof -
  have h: "trim ''   '' = []" by code_simp
  from addCity_blank_is_silent [OF h, of "App_init ''en''" Index_init] h show ?thesis by simp
qed

lemma addCity_duplicate:
  assumes "[] \<notin> set (map city_id (cities s))"
  shows "((\<exists>c\<in>set (cities s). toLowerCase (city_id c) = toLowerCase (trim x)) \<longrightarrow>
            addCity x s = ([Alert (AlreadyExists (trim x))], s)) \<and>
         (trim x \<noteq> [] \<and> (\<forall>c\<in>set (cities s). toLowerCase (city_id c) \<noteq> toLowerCase (trim x)) \<longrightarrow>
            addCity x s = ([KeyboardDismiss, ScrollToEndAndCloseMenuAfter 300],
                           s\<lparr>cities := cities s @ [\<lparr>city_id = trim x, city_name = trim x\<rparr>]\<rparr>)) \<and>
         (trim x \<noteq> [] \<and> toLowerCase (trim y) = toLowerCase (trim x) \<longrightarrow>
            addCity y (snd (addCity x s)) = ([Alert (AlreadyExists (trim y))], snd (addCity x s))) \<and>
         (distinct (map (\<lambda>c. toLowerCase (city_id c)) (cities s)) \<longrightarrow>
            distinct (map (\<lambda>c. toLowerCase (city_id c)) (cities (snd (addCity y (snd (addCity x s)))))))"
proof -
  have a: "addCity x s = ([Alert (AlreadyExists (trim x))], s)"
    if "\<exists>c\<in>set (cities s). toLowerCase (city_id c) = toLowerCase (trim x)"
  proof -
    from that obtain c where c: "c \<in> set (cities s)"
      and eq: "toLowerCase (city_id c) = toLowerCase (trim x)" by blast
    from assms c have "city_id c \<noteq> []" by force
    with eq have "trim x \<noteq> []" by (auto simp: toLowerCase_def)
    with that show ?thesis by (simp add: addCity_cases)
  qed
  have b: "addCity x s = ([KeyboardDismiss, ScrollToEndAndCloseMenuAfter 300],
                           s\<lparr>cities := cities s @ [\<lparr>city_id = trim x, city_name = trim x\<rparr>]\<rparr>)"
    if "trim x \<noteq> []" "\<forall>c\<in>set (cities s). toLowerCase (city_id c) \<noteq> toLowerCase (trim x)"
    using that by (simp add: addCity_cases)
  have c: "addCity y (snd (addCity x s)) = ([Alert (AlreadyExists (trim y))], snd (addCity x s))"
    if "trim x \<noteq> []" "toLowerCase (trim y) = toLowerCase (trim x)"
  proof -
    from that have ny: "trim y \<noteq> []" by (auto simp: toLowerCase_def)
    from that(1) have "\<exists>c\<in>set (cities (snd (addCity x s))). toLowerCase (city_id c) = toLowerCase (trim x)"
      by (auto simp: addCity_cases)
    with that(2) ny show ?thesis by (simp add: addCity_cases)
  qed
  have d: "distinct (map (\<lambda>c. toLowerCase (city_id c)) (cities (snd (addCity z u))))"
    if "distinct (map (\<lambda>c. toLowerCase (city_id c)) (cities u))" for z u
    using that by (auto simp: addCity_cases)
  from a b c d show ?thesis by blast
qed

lemma Index_addCity_duplicate:
  assumes "[] \<notin> set (Index_cities t)"
  shows "((\<exists>c\<in>set (Index_cities t). toLowerCase c = toLowerCase (trim x)) \<longrightarrow>
            Index_addCity x t = ([Alert (AlreadyExists (trim x))], t)) \<and>
         (trim x \<noteq> [] \<and> (\<forall>c\<in>set (Index_cities t). toLowerCase c \<noteq> toLowerCase (trim x)) \<longrightarrow>
            Index_addCity x t = ([KeyboardDismiss, ScrollToEndAndCloseMenuAfter 500],
                                 t\<lparr>Index_cities := Index_cities t @ [trim x]\<rparr>)) \<and>
         (trim x \<noteq> [] \<and> toLowerCase (trim y) = toLowerCase (trim x) \<longrightarrow>
            Index_addCity y (snd (Index_addCity x t)) =
              ([Alert (AlreadyExists (trim y))], snd (Index_addCity x t))) \<and>
         (distinct (map toLowerCase (Index_cities t)) \<longrightarrow>
            distinct (map toLowerCase
              (Index_cities (snd (Index_addCity y (snd (Index_addCity x t)))))))"
proof -
  have a: "Index_addCity x t = ([Alert (AlreadyExists (trim x))], t)"
    if "\<exists>c\<in>set (Index_cities t). toLowerCase c = toLowerCase (trim x)"
  proof -
    from that obtain c where c: "c \<in> set (Index_cities t)"
      and eq: "toLowerCase c = toLowerCase (trim x)" by blast
    from assms c have "c \<noteq> []" by force
    with eq have "trim x \<noteq> []" by (auto simp: toLowerCase_def)
    with that show ?thesis by (simp add: Index_addCity_cases)
  qed
  have b: "Index_addCity x t = ([KeyboardDismiss, ScrollToEndAndCloseMenuAfter 500],
                                 t\<lparr>Index_cities := Index_cities t @ [trim x]\<rparr>)"
    if "trim x \<noteq> []" "\<forall>c\<in>set (Index_cities t). toLowerCase c \<noteq> toLowerCase (trim x)"
    using that by (simp add: Index_addCity_cases)
  have c: "Index_addCity y (snd (Index_addCity x t)) =
      ([Alert (AlreadyExists (trim y))], snd (Index_addCity x t))"
    if "trim x \<noteq> []" "toLowerCase (trim y) = toLowerCase (trim x)"
  proof -
    from that have ny: "trim y \<noteq> []" by (auto simp: toLowerCase_def)
    from that(1)
    have "\<exists>c\<in>set (Index_cities (snd (Index_addCity x t))). toLowerCase c = toLowerCase (trim x)"
      by (auto simp: Index_addCity_cases)
    with that(2) ny show ?thesis by (simp add: Index_addCity_cases)
  qed
  have d: "distinct (map toLowerCase (Index_cities (snd (Index_addCity z u))))"
    if "distinct (map toLowerCase (Index_cities u))" for z u
    using that by (auto simp: Index_addCity_cases)
  from a b c d show ?thesis by blast
qed

lemma run_operations_no_blank_id:
  "[] \<notin> set (map city_id (cities s)) \<Longrightarrow>
     [] \<notin> set (map city_id (cities (run_operations ops s)))"
proof (induction ops arbitrary: s)
  case Nil
  then show ?case by (simp add: run_operations_def)
next
  case (Cons a ops)
  have "[] \<notin> set (map city_id (cities (apply_operation a s)))"
    using Cons.prems by (cases a) (auto simp: addCity_cases deleteCity_def)
  from Cons.IH [OF this] show ?case by (simp add: run_operations_def)
qed

lemma Index_deleteCity_subset:
  "set (Index_cities (snd (Index_deleteCity i t))) \<subseteq> set (Index_cities t)"
proof -
  have "set (map snd (filter P (enumerate 0 xs))) \<subseteq> set xs" for P and xs :: "string list"
    by (auto simp: enumerate_eq_zip dest: set_zip_rightD)
  then show ?thesis by (simp add: Index_deleteCity_def)
qed

lemma Index_run_operations_no_blank:
  "[] \<notin> set (Index_cities t) \<Longrightarrow> [] \<notin> set (Index_cities (Index_run_operations ops t))"
proof (induction ops arbitrary: t)
  case Nil
  then show ?case by (simp add: Index_run_operations_def)
next
  case (Cons a ops)
  have "[] \<notin> set (Index_cities (Index_apply_operation a t))"
  proof (cases a)
    case (Index_Add x)
    with Cons.prems show ?thesis by (auto simp: Index_addCity_cases)
  next
    case (Index_Delete i)
    with Cons.prems Index_deleteCity_subset [of i t] show ?thesis by auto
  qed
  from Cons.IH [OF this] show ?case by (simp add: Index_run_operations_def)
qed

text \<open>
  Claim C2. In a collection without an empty id, for every identifier \<open>x\<close>: when the
  lower-cased id of a city equals the lower-cased trimmed \<open>x\<close>, \<open>addCity\<close> raises the
  "City Exists" alert (AlreadyExists) and leaves the state as it is; when \<open>x\<close> is not
  blank and no id matches, \<open>addCity\<close> appends exactly one city, whose id is the
  trimmed \<open>x\<close>; a second request whose trimmed identifier has the same lower-case
  form as a first one that was not blank is rejected with the alert; and ids that
  differ pairwise in lower case still do so after two requests. The same holds of
  \<open>addCity\<close> in the variant that keeps plain strings. No sequence of requests brings
  an empty id into a collection that has none, as the initial collections have none.
\<close>

theorem addCity_rejects_duplicate:
  assumes "[] \<notin> set (map city_id (cities s))" and "[] \<notin> set (Index_cities t)"
  shows "((\<exists>c\<in>set (cities s). toLowerCase (city_id c) = toLowerCase (trim x)) \<longrightarrow>
            addCity x s = ([Alert (AlreadyExists (trim x))], s)) \<and>
         (trim x \<noteq> [] \<and> (\<forall>c\<in>set (cities s). toLowerCase (city_id c) \<noteq> toLowerCase (trim x)) \<longrightarrow>
            addCity x s = ([KeyboardDismiss, ScrollToEndAndCloseMenuAfter 300],
                           s\<lparr>cities := cities s @ [\<lparr>city_id = trim x, city_name = trim x\<rparr>]\<rparr>)) \<and>
         (trim x \<noteq> [] \<and> toLowerCase (trim y) = toLowerCase (trim x) \<longrightarrow>
            addCity y (snd (addCity x s)) = ([Alert (AlreadyExists (trim y))], snd (addCity x s))) \<and>
         (distinct (map (\<lambda>c. toLowerCase (city_id c)) (cities s)) \<longrightarrow>
            distinct (map (\<lambda>c. toLowerCase (city_id c)) (cities (snd (addCity y (snd (addCity x s))))))) \<and>
         ((\<exists>c\<in>set (Index_cities t). toLowerCase c = toLowerCase (trim x)) \<longrightarrow>
            Index_addCity x t = ([Alert (AlreadyExists (trim x))], t)) \<and>
         (trim x \<noteq> [] \<and> (\<forall>c\<in>set (Index_cities t). toLowerCase c \<noteq> toLowerCase (trim x)) \<longrightarrow>
            Index_addCity x t = ([KeyboardDismiss, ScrollToEndAndCloseMenuAfter 500],
                                 t\<lparr>Index_cities := Index_cities t @ [trim x]\<rparr>)) \<and>
         (trim x \<noteq> [] \<and> toLowerCase (trim y) = toLowerCase (trim x) \<longrightarrow>
            Index_addCity y (snd (Index_addCity x t)) =
              ([Alert (AlreadyExists (trim y))], snd (Index_addCity x t))) \<and>
         (distinct (map toLowerCase (Index_cities t)) \<longrightarrow>
            distinct (map toLowerCase
              (Index_cities (snd (Index_addCity y (snd (Index_addCity x t))))))) \<and>
         [] \<notin> set (map city_id (cities (run_operations ops s))) \<and>
         [] \<notin> set (Index_cities (Index_run_operations iops t))"
  using addCity_duplicate [OF assms(1), of x y] Index_addCity_duplicate [OF assms(2), of x y]
    run_operations_no_blank_id [OF assms(1), of ops]
    Index_run_operations_no_blank [OF assms(2), of iops]
  by (intro conjI) blast+


theorem addCity_rejects_duplicate_witness:
  "[] \<notin> set (map city_id (cities (App_init ''en''))) \<and>
   [] \<notin> set (Index_cities Index_init) \<and>
   addCity '' LONDON, gb'' (App_init ''en'') =
     ([Alert (AlreadyExists ''LONDON, gb'')], App_init ''en'') \<and>
   addCity '' Paris, FR '' (App_init ''en'') =
     ([KeyboardDismiss, ScrollToEndAndCloseMenuAfter 300],
      (App_init ''en'')\<lparr>cities := cities (App_init ''en'') @
         [\<lparr>city_id = ''Paris, FR'', city_name = ''Paris, FR''\<rparr>]\<rparr>) \<and>
   addCity ''paris, fr'' (snd (addCity '' Paris, FR '' (App_init ''en''))) =
     ([Alert (AlreadyExists ''paris, fr'')], snd (addCity '' Paris, FR '' (App_init ''en''))) \<and>
   distinct (map (\<lambda>c. toLowerCase (city_id c))
     (cities (snd (addCity ''paris, fr'' (snd (addCity '' Paris, FR '' (App_init ''en'')))))))
   \<and>
   Index_addCity '' LONDON'' Index_init = ([Alert (AlreadyExists ''LONDON'')], Index_init) \<and>
   Index_addCity '' Paris '' Index_init =
     ([KeyboardDismiss, ScrollToEndAndCloseMenuAfter 500],
      Index_init\<lparr>Index_cities := Index_cities Index_init @ [''Paris'']\<rparr>) \<and>
   Index_addCity ''paris'' (snd (Index_addCity '' Paris '' Index_init)) =
     ([Alert (AlreadyExists ''paris'')], snd (Index_addCity '' Paris '' Index_init)) \<and>
   distinct (map toLowerCase
     (Index_cities (snd (Index_addCity ''paris'' (snd (Index_addCity '' Paris '' Index_init))))))
   \<and>
   [] \<notin> set (map city_id (cities (run_operations [Add ''Paris, FR'', Delete ''Tokyo, JP'']
     (App_init ''en'')))) \<and>
   [] \<notin> set (Index_cities (Index_run_operations [Index_Add ''Paris'', Index_Delete 0]
     Index_init))"
proof -
  have h: "[] \<notin> set (map city_id (cities (App_init ''en'')))" by code_simp
  have hi: "[] \<notin> set (Index_cities Index_init)" by code_simp
  have t1: "trim '' LONDON, gb'' = ''LONDON, gb''" by code_simp
  have t2: "trim '' Paris, FR '' = ''Paris, FR''" by code_simp
  have t3: "trim ''paris, fr'' = ''paris, fr''" by code_simp
  have t4: "trim '' LONDON'' = ''LONDON''" by code_simp
  have t5: "trim '' Paris '' = ''Paris''" by code_simp
  have t6: "trim ''paris'' = ''paris''" by code_simp
  have e1: "\<exists>c\<in>set (cities (App_init ''en'')).
              toLowerCase (city_id c) = toLowerCase ''LONDON, gb''" by code_simp
  have n2: "\<forall>c\<in>set (cities (App_init ''en'')).
              toLowerCase (city_id c) \<noteq> toLowerCase ''Paris, FR''" by code_simp
  have l3: "toLowerCase ''paris, fr'' = toLowerCase ''Paris, FR''" by code_simp
  have d: "distinct (map (\<lambda>c. toLowerCase (city_id c)) (cities (App_init ''en'')))"
    by code_simp
  have ne: "''Paris, FR'' \<noteq> []" by simp
  have e4: "\<exists>c\<in>set (Index_cities Index_init). toLowerCase c = toLowerCase ''LONDON''"
    by code_simp
  have n5: "\<forall>c\<in>set (Index_cities Index_init). toLowerCase c \<noteq> toLowerCase ''Paris''"
    by code_simp
  have l6: "toLowerCase ''paris'' = toLowerCase ''Paris''" by code_simp
  have di: "distinct (map toLowerCase (Index_cities Index_init))" by code_simp
  have nei: "''Paris'' \<noteq> []" by simp
  note dup = addCity_rejects_duplicate [OF h hi, where x = "'' LONDON, gb''", unfolded t1]
  note fresh = addCity_rejects_duplicate [OF h hi, where x = "'' Paris, FR ''"
      and y = "''paris, fr''" and ops = "[Add ''Paris, FR'', Delete ''Tokyo, JP'']"
      and iops = "[Index_Add ''Paris'', Index_Delete 0]", unfolded t2 t3]
  note idup = addCity_rejects_duplicate [OF h hi, where x = "'' LONDON''", unfolded t4]
  note ifresh = addCity_rejects_duplicate [OF h hi, where x = "'' Paris ''"
      and y = "''paris''", unfolded t5 t6]
  from dup e1 have a: "addCity '' LONDON, gb'' (App_init ''en'') =
     ([Alert (AlreadyExists ''LONDON, gb'')], App_init ''en'')" by blast
  from fresh n2 ne have b: "addCity '' Paris, FR '' (App_init ''en'') =
     ([KeyboardDismiss, ScrollToEndAndCloseMenuAfter 300],
      (App_init ''en'')\<lparr>cities := cities (App_init ''en'') @
         [\<lparr>city_id = ''Paris, FR'', city_name = ''Paris, FR''\<rparr>]\<rparr>)" by blast
  from fresh l3 ne
  have c: "addCity ''paris, fr'' (snd (addCity '' Paris, FR '' (App_init ''en''))) =
     ([Alert (AlreadyExists ''paris, fr'')], snd (addCity '' Paris, FR '' (App_init ''en'')))"
    by blast
  from fresh d
  have e: "distinct (map (\<lambda>c. toLowerCase (city_id c))
     (cities (snd (addCity ''paris, fr'' (snd (addCity '' Paris, FR '' (App_init ''en'')))))))"
    by blast
  from idup e4 have a': "Index_addCity '' LONDON'' Index_init =
     ([Alert (AlreadyExists ''LONDON'')], Index_init)" by blast
  from ifresh n5 nei have b': "Index_addCity '' Paris '' Index_init =
     ([KeyboardDismiss, ScrollToEndAndCloseMenuAfter 500],
      Index_init\<lparr>Index_cities := Index_cities Index_init @ [''Paris'']\<rparr>)" by blast
  from ifresh l6 nei
  have c': "Index_addCity ''paris'' (snd (Index_addCity '' Paris '' Index_init)) =
     ([Alert (AlreadyExists ''paris'')], snd (Index_addCity '' Paris '' Index_init))" by blast
  from ifresh di
  have e': "distinct (map toLowerCase
     (Index_cities (snd (Index_addCity ''paris'' (snd (Index_addCity '' Paris '' Index_init))))))"
    by blast
  from fresh
  have f: "[] \<notin> set (map city_id (cities (run_operations
      [Add ''Paris, FR'', Delete ''Tokyo, JP''] (App_init ''en''))))"
    and g: "[] \<notin> set (Index_cities (Index_run_operations [Index_Add ''Paris'', Index_Delete 0]
      Index_init))" by blast+
  from h hi a b c e a' b' c' e' f g show ?thesis by (intro conjI)
qed

section \<open>Suggestions\<close>

lemma map_of_None_keys: "map_of m k = None \<longleftrightarrow> k \<notin> fst ` set m"
  by (simp add: map_of_eq_None_iff)

lemma fold_suggestion_put:
  "fold suggestion_put data (map (\<lambda>g. (suggestion_key g, suggestion_of g)) seen) =
     map (\<lambda>g. (suggestion_key g, suggestion_of g))
       (seen @ first_occurrences_from suggestion_key (rev seen) data)"
proof (induction data arbitrary: seen)
  case Nil
  then show ?case by simp
next
  case (Cons a data)
  show ?case
  proof (cases "suggestion_key a \<in> suggestion_key ` set seen")
    case True
    then have "suggestion_put a (map (\<lambda>g. (suggestion_key g, suggestion_of g)) seen) =
        map (\<lambda>g. (suggestion_key g, suggestion_of g)) seen"
      by (simp add: suggestion_put_def map_of_None_keys image_image)
    with True Cons.IH [of seen] show ?thesis by simp
  next
    case False
    then have "suggestion_put a (map (\<lambda>g. (suggestion_key g, suggestion_of g)) seen) =
        map (\<lambda>g. (suggestion_key g, suggestion_of g)) (seen @ [a])"
      by (simp add: suggestion_put_def map_of_None_keys image_image)
    with False Cons.IH [of "seen @ [a]"] show ?thesis by simp
  qed
qed

lemma unique_suggestions_first_occurrences:
  "unique_suggestions data = map suggestion_of (first_occurrences suggestion_key data)"
  using fold_suggestion_put [of data "[]"]
  by (simp add: unique_suggestions_def first_occurrences_def comp_def)

lemma first_occurrences_from_cong:
  assumes "\<forall>a\<in>set seen \<union> set xs. \<forall>b\<in>set seen \<union> set xs. f a = f b \<longleftrightarrow> g a = g b"
  shows "first_occurrences_from f seen xs = first_occurrences_from g seen xs"
  using assms
proof (induction xs arbitrary: seen)
  case Nil
  then show ?case by simp
next
  case (Cons x xs)
  have mem: "f x \<in> f ` set seen \<longleftrightarrow> g x \<in> g ` set seen"
    using Cons.prems by (auto simp: image_iff)
  have "first_occurrences_from f seen xs = first_occurrences_from g seen xs"
    by (rule Cons.IH) (use Cons.prems in auto)
  moreover have "first_occurrences_from f (x # seen) xs = first_occurrences_from g (x # seen) xs"
    by (rule Cons.IH) (use Cons.prems in auto)
  ultimately show ?case using mem by simp
qed

lemma joined_with_comma_eq:
  assumes "n1 @ '','' @ c1 = n2 @ '','' @ c2"
    and "CHR '','' \<notin> set c1" and "CHR '','' \<notin> set c2"
  shows "n1 = n2 \<and> c1 = c2"
proof -
  from assms(1) have "rev (n1 @ '','' @ c1) = rev (n2 @ '','' @ c2)" by simp
  then have e: "rev c1 @ CHR '','' # rev n1 = rev c2 @ CHR '','' # rev n2" by simp
  have "takeWhile (\<lambda>c. c \<noteq> CHR '','') (rev c1 @ CHR '','' # rev n1) = rev c1"
    using assms(2) by (auto simp: takeWhile_tail)
  moreover have "takeWhile (\<lambda>c. c \<noteq> CHR '','') (rev c2 @ CHR '','' # rev n2) = rev c2"
    using assms(3) by (auto simp: takeWhile_tail)
  ultimately have "rev c1 = rev c2" using e by simp
  then have "c1 = c2" by simp
  with assms(1) show ?thesis by simp
qed

lemma suggestion_key_eq_iff:
  assumes "CHR '','' \<notin> set (geo_country a)" and "CHR '','' \<notin> set (geo_country b)"
  shows "suggestion_key a = suggestion_key b \<longleftrightarrow> name_and_country a = name_and_country b"
proof
  assume "suggestion_key a = suggestion_key b"
  then have "geo_name a @ '','' @ geo_country a = geo_name b @ '','' @ geo_country b"
    by (simp add: suggestion_key_def)
  from joined_with_comma_eq [OF this assms] show "name_and_country a = name_and_country b"
    by (simp add: name_and_country_def)
next
  assume "name_and_country a = name_and_country b"
  then show "suggestion_key a = suggestion_key b"
    by (simp add: name_and_country_def suggestion_key_def)
qed

lemma first_occurrences_from_distinct:
  "distinct (map f (first_occurrences_from f seen xs)) \<and>
   f ` set (first_occurrences_from f seen xs) = f ` set xs - f ` set seen"
  by (induction f seen xs rule: first_occurrences_from.induct) auto

lemma first_occurrences_from_subseq: "subseq (first_occurrences_from f seen xs) xs"
  by (induction f seen xs rule: first_occurrences_from.induct) auto

text \<open>
  Claim C9. For geocoding results whose country codes contain no comma (the key the
  code uses is the name, a comma and the country code), the suggestions produced are
  the results deduplicated by the pair of name and country code: they are the first
  occurrences of each pair, in the order of the input; no pair occurs twice among them,
  every pair of the input occurs, and they form a subsequence of the input.
\<close>

theorem suggestions_deduplicated:
  assumes "\<forall>item\<in>set data. CHR '','' \<notin> set (geo_country item)"
  shows "suggestions (fetchSuggestions_answer (Resolved (Some data)) m) =
           map suggestion_of (first_occurrences name_and_country data) \<and>
         distinct (map name_and_country (first_occurrences name_and_country data)) \<and>
         set (map name_and_country (first_occurrences name_and_country data)) =
           set (map name_and_country data) \<and>
         subseq (first_occurrences name_and_country data) data"
proof -
  have "\<forall>a\<in>set [] \<union> set data. \<forall>b\<in>set [] \<union> set data.
          suggestion_key a = suggestion_key b \<longleftrightarrow> name_and_country a = name_and_country b"
    using assms by (simp add: suggestion_key_eq_iff)
  then have "first_occurrences suggestion_key data = first_occurrences name_and_country data"
    unfolding first_occurrences_def by (rule first_occurrences_from_cong)
  then have "suggestions (fetchSuggestions_answer (Resolved (Some data)) m) =
      map suggestion_of (first_occurrences name_and_country data)"
    by (simp add: unique_suggestions_first_occurrences fetchSuggestions_answer_def)
  moreover have "distinct (map name_and_country (first_occurrences name_and_country data))"
    by (simp add: first_occurrences_def first_occurrences_from_distinct)
  moreover have "set (map name_and_country (first_occurrences name_and_country data)) =
      set (map name_and_country data)"
    by (simp add: first_occurrences_def first_occurrences_from_distinct)
  moreover have "subseq (first_occurrences name_and_country data) data"
    by (simp add: first_occurrences_def first_occurrences_from_subseq)
  ultimately show ?thesis by blast
qed

theorem suggestions_deduplicated_witness:
  "suggestions (fetchSuggestions_answer (Resolved (Some
     [\<lparr>lat = 51.5, lon = 0, geo_name = ''London'', geo_country = ''GB'', geo_state = Some ''England'', local_names = None\<rparr>,
      \<lparr>lat = 42.9, lon = -81.2, geo_name = ''London'', geo_country = ''CA'', geo_state = Some ''Ontario'', local_names = None\<rparr>,
      \<lparr>lat = 51.6, lon = 0.1, geo_name = ''London'', geo_country = ''GB'', geo_state = None, local_names = None\<rparr>,
      \<lparr>lat = 37.1, lon = -84, geo_name = ''London'', geo_country = ''US'', geo_state = Some ''Kentucky'', local_names = None\<rparr>,
      \<lparr>lat = 39.8, lon = -83.4, geo_name = ''London'', geo_country = ''US'', geo_state = Some ''Ohio'', local_names = None\<rparr>])) MenuScreen_init)
   = [\<lparr>sug_name = ''London'', sug_country = ''GB'', sug_state = Some ''England''\<rparr>,
      \<lparr>sug_name = ''London'', sug_country = ''CA'', sug_state = Some ''Ontario''\<rparr>,
      \<lparr>sug_name = ''London'', sug_country = ''US'', sug_state = Some ''Kentucky''\<rparr>]"
  (is "suggestions (fetchSuggestions_answer (Resolved (Some ?data)) _) = ?out")
proof -
  have h: "\<forall>item\<in>set ?data. CHR '','' \<notin> set (geo_country item)" by simp
  have "map suggestion_of (first_occurrences name_and_country ?data) = ?out"
    by (simp add: first_occurrences_def name_and_country_def suggestion_of_def)
  with suggestions_deduplicated [OF h, of MenuScreen_init] show ?thesis by simp
qed

section \<open>Navigation\<close>

lemma filter_enumerate_drop_index:
  "map snd (filter (\<lambda>(index, c). index \<noteq> i) (enumerate n cs)) =
     (if i < n then cs else take (i - n) cs @ drop (Suc (i - n)) cs)"
proof (induction cs arbitrary: n)
  case Nil
  then show ?case by simp
next
  case (Cons c cs)
  show ?case
  proof (cases "i < Suc n")
    case True
    with Cons.IH [of "Suc n"] show ?thesis by auto
  next
    case False
    then obtain k where k: "i - n = Suc k" "i - Suc n = k" by (cases "i - n") auto
    with False Cons.IH [of "Suc n"] show ?thesis by auto
  qed
qed

lemma Index_deleteCity_cities:
  "1 < length (Index_cities s) \<Longrightarrow>
     Index_cities (snd (Index_deleteCity i s)) =
       take i (Index_cities s) @ drop (Suc i) (Index_cities s)"
  by (simp add: Index_deleteCity_def filter_enumerate_drop_index)

text \<open>
  Counterexample to claim C5 as stated. From the collection A, B with the second page
  active, deleting A leaves the collection B and the active index 1, where the rule of
  the design gives 0.
\<close>

theorem deleteCity_breaks_index_rule:
  "Index_cities (snd (Index_deleteCity 0 \<lparr>Index_cities = [''A'', ''B''],
       Index_units = imperial, Index_activeIndex = 1, Index_isMenuVisible = True\<rparr>)) = [''B''] \<and>
   Index_activeIndex (snd (Index_deleteCity 0 \<lparr>Index_cities = [''A'', ''B''],
       Index_units = imperial, Index_activeIndex = 1, Index_isMenuVisible = True\<rparr>)) = 1 \<and>
   Index_activeIndex (snd (Index_deleteCity 0 \<lparr>Index_cities = [''A'', ''B''],
       Index_units = imperial, Index_activeIndex = 1, Index_isMenuVisible = True\<rparr>)) \<noteq>
     spec_activeIndex_after_delete 0 1"
  by (simp add: Index_deleteCity_def spec_activeIndex_after_delete_def enumerate_eq_zip upt_rec)

text \<open>
  Claim C5, amended. \<open>deleteCity\<close> removes the entry at the given position, keeping
  the order of the others, and never changes the active index, wherever the removed
  entry lies; for an entry strictly after the active one this is what the design
  asks for. The active index only follows the list view: a report of viewable items
  sets it to the index of the first one (0 when that index is null), and an empty
  report leaves it alone.
\<close>

theorem deleteCity_keeps_activeIndex:
  "Index_activeIndex (snd (Index_deleteCity i s)) = Index_activeIndex s \<and>
   (1 < length (Index_cities s) \<longrightarrow>
      Index_cities (snd (Index_deleteCity i s)) =
        take i (Index_cities s) @ drop (Suc i) (Index_cities s)) \<and>
   (Index_activeIndex s < i \<longrightarrow>
      Index_activeIndex (snd (Index_deleteCity i s)) =
        spec_activeIndex_after_delete i (Index_activeIndex s)) \<and>
   Index_activeIndex (Index_onViewableItemsChanged (Some j # vs) (snd (Index_deleteCity i s))) = j \<and>
   Index_activeIndex (Index_onViewableItemsChanged (None # vs) (snd (Index_deleteCity i s))) = 0 \<and>
   Index_activeIndex (Index_onViewableItemsChanged [] (snd (Index_deleteCity i s))) =
     Index_activeIndex s"
proof -
  have a: "Index_activeIndex (snd (Index_deleteCity i s)) = Index_activeIndex s"
    by (simp add: Index_deleteCity_def)
  then show ?thesis
    by (simp add: Index_deleteCity_cities Index_onViewableItemsChanged_def
        spec_activeIndex_after_delete_def)
qed

theorem deleteCity_keeps_activeIndex_witness:
  "Index_activeIndex (snd (Index_deleteCity 0 \<lparr>Index_cities = [''A'', ''B''],
       Index_units = imperial, Index_activeIndex = 1, Index_isMenuVisible = True\<rparr>)) = 1 \<and>
   Index_cities (snd (Index_deleteCity 0 \<lparr>Index_cities = [''A'', ''B''],
       Index_units = imperial, Index_activeIndex = 1, Index_isMenuVisible = True\<rparr>)) = [''B''] \<and>
   Index_activeIndex (snd (Index_deleteCity 2 \<lparr>Index_cities = [''A'', ''B'', ''C''],
       Index_units = imperial, Index_activeIndex = 1, Index_isMenuVisible = True\<rparr>)) =
     spec_activeIndex_after_delete 2 1 \<and>
   Index_activeIndex (Index_onViewableItemsChanged [Some 0]
     (snd (Index_deleteCity 0 \<lparr>Index_cities = [''A'', ''B''],
       Index_units = imperial, Index_activeIndex = 1, Index_isMenuVisible = True\<rparr>))) = 0"
  (is "?a \<and> ?b \<and> ?c \<and> ?d")
proof -
  let ?s = "\<lparr>Index_cities = [''A'', ''B''], Index_units = imperial,
             Index_activeIndex = 1, Index_isMenuVisible = True\<rparr>"
  let ?t = "\<lparr>Index_cities = [''A'', ''B'', ''C''], Index_units = imperial,
             Index_activeIndex = 1, Index_isMenuVisible = True\<rparr>"
  note one = deleteCity_keeps_activeIndex [of 0 ?s 0 "[]"]
  note two = deleteCity_keeps_activeIndex [of 2 ?t 0 "[]"]
  from one have ?a by simp
  moreover from one have ?b by simp
  moreover from two have ?c by simp
  moreover from one have ?d by simp
  ultimately show ?thesis by blast
qed


lemma findIndex_takeWhile:
  "findIndex P xs =
     (if \<exists>x\<in>set xs. P x then int (length (takeWhile (\<lambda>x. \<not> P x) xs)) else - 1)"
  by (induction xs) (auto simp: Let_def)

lemma findIndex_found:
  assumes "\<exists>x\<in>set xs. P x"
  shows "findIndex P xs \<noteq> - 1 \<and> nat (findIndex P xs) < length xs \<and>
         P (xs ! nat (findIndex P xs)) \<and> (\<forall>j < nat (findIndex P xs). \<not> P (xs ! j))"
proof -
  let ?n = "length (takeWhile (\<lambda>x. \<not> P x) xs)"
  from assms have eq: "findIndex P xs = int ?n" by (simp add: findIndex_takeWhile)
  from assms have lt: "?n < length xs" by (induction xs) auto
  from lt have here: "P (xs ! ?n)" using nth_length_takeWhile [of "\<lambda>x. \<not> P x" xs] by simp
  have before: "\<not> P (xs ! j)" if "j < ?n" for j
    using that by (metis (mono_tags, lifting) nth_mem set_takeWhileD takeWhile_nth)
  from eq lt here before show ?thesis by simp
qed

lemma handleSelectSuggestion_cases:
  "((\<exists>c\<in>set (cities s). toLowerCase (city_id c) =
        toLowerCase (sug_name city @ '', '' @ sug_country city)) \<longrightarrow>
      (\<exists>i < length (cities s).
         toLowerCase (city_id (cities s ! i)) =
           toLowerCase (sug_name city @ '', '' @ sug_country city) \<and>
         (\<forall>j < i. toLowerCase (city_id (cities s ! j)) \<noteq>
           toLowerCase (sug_name city @ '', '' @ sug_country city)) \<and>
         handleSelectSuggestion now city (s, m) =
           ([ScrollToIndex i], s\<lparr>isMenuVisible := False\<rparr>,
            (setSearchInput now [] m)\<lparr>suggestions := []\<rparr>))) \<and>
   (\<not> (\<exists>c\<in>set (cities s). toLowerCase (city_id c) =
        toLowerCase (sug_name city @ '', '' @ sug_country city)) \<longrightarrow>
      handleSelectSuggestion now city (s, m) =
        (fst (addCity (sug_name city @ '', '' @ sug_country city) s),
         snd (addCity (sug_name city @ '', '' @ sug_country city) s),
         (setSearchInput now [] m)\<lparr>suggestions := []\<rparr>))"
proof (intro conjI impI)
  let ?ident = "sug_name city @ '', '' @ sug_country city"
  let ?Q = "\<lambda>c. toLowerCase (city_id c) = toLowerCase ?ident"
  assume ex: "\<exists>c\<in>set (cities s). ?Q c"
  then have "find ?Q (cities s) \<noteq> None" by (simp add: find_None_set)
  then obtain e where fe: "find ?Q (cities s) = Some e" by blast
  then obtain k where k: "k < length (cities s)" "?Q (cities s ! k)" "e = cities s ! k"
    "\<forall>j<k. \<not> ?Q (cities s ! j)" by (auto simp: find_Some_iff)
  let ?P = "\<lambda>c. city_id c = city_id e"
  let ?i = "nat (findIndex ?P (cities s))"
  from k have "\<exists>x\<in>set (cities s). ?P x" by auto
  from findIndex_found [OF this]
  have fi: "findIndex ?P (cities s) \<noteq> - 1" "?i < length (cities s)" "?P (cities s ! ?i)"
    "\<forall>j < ?i. \<not> ?P (cities s ! j)" by blast+
  from fi(3) k have q: "?Q (cities s ! ?i)" by simp
  have "?i \<le> k"
  proof (rule ccontr)
    assume "\<not> ?i \<le> k"
    then have "k < ?i" by simp
    with fi(4) have "\<not> ?P (cities s ! k)" by blast
    with k(3) show False by simp
  qed
  with k(4) have first: "\<forall>j < ?i. \<not> ?Q (cities s ! j)" by auto
  have run: "handleSelectSuggestion now city (s, m) =
      ([ScrollToIndex ?i], s\<lparr>isMenuVisible := False\<rparr>,
       (setSearchInput now [] m)\<lparr>suggestions := []\<rparr>)"
    using fe fi(1) by (simp add: handleSelectSuggestion_def handleCitySelect_def Let_def)
  from fi(2) q first run
  show "\<exists>i < length (cities s). ?Q (cities s ! i) \<and> (\<forall>j < i. \<not> ?Q (cities s ! j)) \<and>
      handleSelectSuggestion now city (s, m) =
        ([ScrollToIndex i], s\<lparr>isMenuVisible := False\<rparr>,
         (setSearchInput now [] m)\<lparr>suggestions := []\<rparr>)"
    by blast
next
  let ?ident = "sug_name city @ '', '' @ sug_country city"
  assume "\<not> (\<exists>c\<in>set (cities s). toLowerCase (city_id c) = toLowerCase ?ident)"
  then have "find (\<lambda>c. toLowerCase (city_id c) = toLowerCase ?ident) (cities s) = None"
    by (simp add: find_None_set)
  then show "handleSelectSuggestion now city (s, m) =
      (fst (addCity ?ident s), snd (addCity ?ident s),
       (setSearchInput now [] m)\<lparr>suggestions := []\<rparr>)"
    by (simp add: handleSelectSuggestion_def Let_def)
qed



text \<open>
  Counterexample to claim C8 as stated. With the first page active, the suggestion
  london, gb is accepted; London, GB is tracked at position 1. The handler asks the list
  to scroll to position 1, and the active index is still 0.
\<close>

theorem selection_leaves_activeIndex:
  "fst (Screen_handleSelectSuggestion 0
      \<lparr>sug_name = ''london'', sug_country = ''gb'', sug_state = None\<rparr>
      \<lparr>app = App_init ''en'', menu = MenuScreen_init, swiper = \<lparr>activeIndex = 0\<rparr>\<rparr>) =
     [ScrollToIndex 1] \<and>
   activeIndex (swiper (snd (Screen_handleSelectSuggestion 0
      \<lparr>sug_name = ''london'', sug_country = ''gb'', sug_state = None\<rparr>
      \<lparr>app = App_init ''en'', menu = MenuScreen_init, swiper = \<lparr>activeIndex = 0\<rparr>\<rparr>))) = 0 \<and>
   activeIndex (swiper (snd (Screen_handleSelectSuggestion 0
      \<lparr>sug_name = ''london'', sug_country = ''gb'', sug_state = None\<rparr>
      \<lparr>app = App_init ''en'', menu = MenuScreen_init, swiper = \<lparr>activeIndex = 0\<rparr>\<rparr>))) \<noteq> 1"
  by code_simp

text \<open>
  Claim C8, amended. The identifier of a suggestion is its name, a comma and a space,
  and its country. Accepting a suggestion never changes the state of the pager, so the
  active index stays as it was. When some city's id equals the identifier up to case,
  the collection stays as it is (only the menu closes and the search field is
  cleared) and the list is asked to scroll to a position \<open>i\<close>, the first one whose
  id matches; the active index becomes \<open>i\<close> when the list view then reports that
  position as the one in view. When no id matches, and only then, the handler does
  what \<open>addCity\<close> does with the identifier.
\<close>

theorem selecting_tracked_suggestion:
  "swiper (snd (Screen_handleSelectSuggestion now city sc)) = swiper sc \<and>
   ((\<exists>c\<in>set (cities (app sc)). toLowerCase (city_id c) =
        toLowerCase (sug_name city @ '', '' @ sug_country city)) \<longrightarrow>
      (\<exists>i < length (cities (app sc)).
         toLowerCase (city_id (cities (app sc) ! i)) =
           toLowerCase (sug_name city @ '', '' @ sug_country city) \<and>
         (\<forall>j < i. toLowerCase (city_id (cities (app sc) ! j)) \<noteq>
           toLowerCase (sug_name city @ '', '' @ sug_country city)) \<and>
         Screen_handleSelectSuggestion now city sc =
           ([ScrollToIndex i],
            sc\<lparr>app := (app sc)\<lparr>isMenuVisible := False\<rparr>,
               menu := (setSearchInput now [] (menu sc))\<lparr>suggestions := []\<rparr>\<rparr>) \<and>
         activeIndex (swiper (Screen_onViewableItemsChanged [Some i]
           (snd (Screen_handleSelectSuggestion now city sc)))) = i)) \<and>
   (\<not> (\<exists>c\<in>set (cities (app sc)). toLowerCase (city_id c) =
        toLowerCase (sug_name city @ '', '' @ sug_country city)) \<longrightarrow>
      Screen_handleSelectSuggestion now city sc =
        (fst (addCity (sug_name city @ '', '' @ sug_country city) (app sc)),
         sc\<lparr>app := snd (addCity (sug_name city @ '', '' @ sug_country city) (app sc)),
            menu := (setSearchInput now [] (menu sc))\<lparr>suggestions := []\<rparr>\<rparr>))"
proof -
  note h = handleSelectSuggestion_cases [of "app sc" city now "menu sc"]
  have a: "swiper (snd (Screen_handleSelectSuggestion now city sc)) = swiper sc"
    by (simp add: Screen_handleSelectSuggestion_def Let_def)
  have act: "activeIndex (swiper (Screen_onViewableItemsChanged [Some i]
           (snd (Screen_handleSelectSuggestion now city sc)))) = i" for i
    by (simp add: Screen_onViewableItemsChanged_def onViewableItemsChanged_def a)
  have run: "Screen_handleSelectSuggestion now city sc = (e, sc\<lparr>app := s', menu := m'\<rparr>)"
    if "handleSelectSuggestion now city (app sc, menu sc) = (e, s', m')" for e s' m'
    using that by (simp add: Screen_handleSelectSuggestion_def Let_def)
  from h a act run show ?thesis by (auto simp: Let_def)
qed


theorem selecting_tracked_suggestion_witness:
  "Screen_handleSelectSuggestion 0 \<lparr>sug_name = ''london'', sug_country = ''gb'', sug_state = None\<rparr>
      \<lparr>app = App_init ''en'', menu = MenuScreen_init, swiper = \<lparr>activeIndex = 0\<rparr>\<rparr> =
     ([ScrollToIndex 1],
      \<lparr>app = App_init ''en'', menu = MenuScreen_init, swiper = \<lparr>activeIndex = 0\<rparr>\<rparr>
        \<lparr>app := (App_init ''en'')\<lparr>isMenuVisible := False\<rparr>,
         menu := (setSearchInput 0 [] MenuScreen_init)\<lparr>suggestions := []\<rparr>\<rparr>) \<and>
   swiper (snd (Screen_handleSelectSuggestion 0
      \<lparr>sug_name = ''london'', sug_country = ''gb'', sug_state = None\<rparr>
      \<lparr>app = App_init ''en'', menu = MenuScreen_init, swiper = \<lparr>activeIndex = 0\<rparr>\<rparr>)) =
     \<lparr>activeIndex = 0\<rparr> \<and>
   activeIndex (swiper (Screen_onViewableItemsChanged [Some 1]
      (snd (Screen_handleSelectSuggestion 0
        \<lparr>sug_name = ''london'', sug_country = ''gb'', sug_state = None\<rparr>
        \<lparr>app = App_init ''en'', menu = MenuScreen_init, swiper = \<lparr>activeIndex = 0\<rparr>\<rparr>)))) = 1 \<and>
   Screen_handleSelectSuggestion 0 \<lparr>sug_name = ''Paris'', sug_country = ''FR'', sug_state = None\<rparr>
      \<lparr>app = App_init ''en'', menu = MenuScreen_init, swiper = \<lparr>activeIndex = 0\<rparr>\<rparr> =
     (fst (addCity ''Paris, FR'' (App_init ''en'')),
      \<lparr>app = App_init ''en'', menu = MenuScreen_init, swiper = \<lparr>activeIndex = 0\<rparr>\<rparr>
        \<lparr>app := snd (addCity ''Paris, FR'' (App_init ''en'')),
         menu := (setSearchInput 0 [] MenuScreen_init)\<lparr>suggestions := []\<rparr>\<rparr>)"
proof -
  let ?london = "\<lparr>sug_name = ''london'', sug_country = ''gb'', sug_state = None\<rparr>"
  let ?paris = "\<lparr>sug_name = ''Paris'', sug_country = ''FR'', sug_state = None\<rparr>"
  let ?s = "App_init ''en''"
  let ?sc = "\<lparr>app = ?s, menu = MenuScreen_init, swiper = \<lparr>activeIndex = 0\<rparr>\<rparr>"
  have m0: "toLowerCase (city_id (cities ?s ! 0)) \<noteq> toLowerCase ''london, gb''" by code_simp
  have m1: "toLowerCase (city_id (cities ?s ! 1)) = toLowerCase ''london, gb''" by code_simp
  have ex: "\<exists>c\<in>set (cities ?s). toLowerCase (city_id c) = toLowerCase ''london, gb''"
    by code_simp
  have nex: "\<not> (\<exists>c\<in>set (cities ?s). toLowerCase (city_id c) = toLowerCase ''Paris, FR'')"
    by code_simp
  note london = selecting_tracked_suggestion [of 0 ?london ?sc]
  note paris = selecting_tracked_suggestion [of 0 ?paris ?sc]
  from london ex
  obtain i where i: "i < length (cities ?s)"
      "toLowerCase (city_id (cities ?s ! i)) = toLowerCase ''london, gb''"
      "\<forall>j < i. toLowerCase (city_id (cities ?s ! j)) \<noteq> toLowerCase ''london, gb''"
      "Screen_handleSelectSuggestion 0 ?london ?sc =
         ([ScrollToIndex i],
          ?sc\<lparr>app := ?s\<lparr>isMenuVisible := False\<rparr>,
              menu := (setSearchInput 0 [] MenuScreen_init)\<lparr>suggestions := []\<rparr>\<rparr>)"
      "activeIndex (swiper (Screen_onViewableItemsChanged [Some i]
         (snd (Screen_handleSelectSuggestion 0 ?london ?sc)))) = i"
    by auto
  have "i \<noteq> 0" using i(2) m0 by metis
  moreover have "\<not> 1 < i" using i(3) m1 by metis
  ultimately have "i = 1" by simp
  with i(4,5) have a: "Screen_handleSelectSuggestion 0 ?london ?sc =
         ([ScrollToIndex 1],
          ?sc\<lparr>app := ?s\<lparr>isMenuVisible := False\<rparr>,
              menu := (setSearchInput 0 [] MenuScreen_init)\<lparr>suggestions := []\<rparr>\<rparr>)"
    and c: "activeIndex (swiper (Screen_onViewableItemsChanged [Some 1]
         (snd (Screen_handleSelectSuggestion 0 ?london ?sc)))) = 1" by simp_all
  from london have b: "swiper (snd (Screen_handleSelectSuggestion 0 ?london ?sc)) =
      \<lparr>activeIndex = 0\<rparr>" by simp
  from paris nex
  have d: "Screen_handleSelectSuggestion 0 ?paris ?sc =
     (fst (addCity ''Paris, FR'' ?s),
      ?sc\<lparr>app := snd (addCity ''Paris, FR'' ?s),
          menu := (setSearchInput 0 [] MenuScreen_init)\<lparr>suggestions := []\<rparr>\<rparr>)" by simp
  from a b c d show ?thesis by (intro conjI)
qed

section \<open>The weather page\<close>





lemma destructure_0_cases:
  "destructure_0 body =
     (case body of BodyList (Some g # xs) \<Rightarrow> Inr g | _ \<Rightarrow> Inl TypeError)"
  by (cases body rule: destructure_0.cases) simp_all












text \<open>
  Counterexample to claim C4 as stated. Paris is fetched under metric units and
  English with snapshot 21; the units are switched to imperial. The page then shows the
  spinner together with the old snapshot, labelled in miles per hour.
\<close>

theorem stale_snapshot_shown:
  "WeatherPage_view (renderItem
      (setUnits imperial \<lparr>cities = initial_cities, isMenuVisible = True, units = metric,
         locale_tag = ''en''\<rparr>)
      (fetchWeather_complete
         (Inr \<lparr>fetched = 21::nat, wd_name = ''Paris'', wd_country = ''FR''\<rparr>)
         (WeatherPage_mount \<lparr>city_id = ''Paris, FR'', city_name = ''Paris,FR''\<rparr> ''en'' metric))) =
     \<lparr>spinner = True, errorText = None,
      content = Some (\<lparr>fetched = 21, wd_name = ''Paris'', wd_country = ''FR''\<rparr>, ''mph'')\<rparr>"
  by (simp add: WeatherPage_view_def renderItem_def setUnits_def WeatherPage_render_def
      fetchWeather_complete_def fetchWeather_begin_def WeatherPage_mount_def)

text \<open>
  Claim C4, amended. When the units or the language change, the page of every city is
  rendered with the new preferences and starts a new fetch: it is loading and its error
  is cleared, but the snapshot fetched under the old preferences stays in the state, and
  so on the screen, until the new fetch succeeds and replaces it; if the new fetch
  fails, the old snapshot stays.
\<close>

theorem preference_change_keeps_snapshot:
  assumes "prop_lang p = locale_tag s" and "prop_units p = units s"
    and "l \<noteq> locale_tag s \<or> u \<noteq> units s"
  shows "loading (renderItem (setUnits u (changeLocale l s)) p) \<and>
         error (renderItem (setUnits u (changeLocale l s)) p) = None \<and>
         weatherData (renderItem (setUnits u (changeLocale l s)) p) = weatherData p \<and>
         prop_lang (renderItem (setUnits u (changeLocale l s)) p) = l \<and>
         prop_units (renderItem (setUnits u (changeLocale l s)) p) = u \<and>
         weatherData (fetchWeather_complete (Inr d)
           (renderItem (setUnits u (changeLocale l s)) p)) = Some d \<and>
         weatherData (fetchWeather_complete (Inl m)
           (renderItem (setUnits u (changeLocale l s)) p)) = weatherData p"
  using assms
  by (auto simp: renderItem_def setUnits_def changeLocale_def WeatherPage_render_def
      fetchWeather_complete_def fetchWeather_begin_def)



theorem preference_change_keeps_snapshot_witness:
  "loading (renderItem
      (setUnits imperial (changeLocale ''en''
         \<lparr>cities = initial_cities, isMenuVisible = True, units = metric, locale_tag = ''en''\<rparr>))
      (fetchWeather_complete
         (Inr \<lparr>fetched = 21::nat, wd_name = ''Paris'', wd_country = ''FR''\<rparr>)
         (WeatherPage_mount \<lparr>city_id = ''Paris, FR'', city_name = ''Paris,FR''\<rparr> ''en'' metric))) \<and>
   weatherData (renderItem
      (setUnits imperial (changeLocale ''en''
         \<lparr>cities = initial_cities, isMenuVisible = True, units = metric, locale_tag = ''en''\<rparr>))
      (fetchWeather_complete
         (Inr \<lparr>fetched = 21::nat, wd_name = ''Paris'', wd_country = ''FR''\<rparr>)
         (WeatherPage_mount \<lparr>city_id = ''Paris, FR'', city_name = ''Paris,FR''\<rparr> ''en'' metric))) =
     Some \<lparr>fetched = 21, wd_name = ''Paris'', wd_country = ''FR''\<rparr> \<and>
   prop_units (renderItem
      (setUnits imperial (changeLocale ''en''
         \<lparr>cities = initial_cities, isMenuVisible = True, units = metric, locale_tag = ''en''\<rparr>))
      (fetchWeather_complete
         (Inr \<lparr>fetched = 21::nat, wd_name = ''Paris'', wd_country = ''FR''\<rparr>)
         (WeatherPage_mount \<lparr>city_id = ''Paris, FR'', city_name = ''Paris,FR''\<rparr> ''en'' metric))) =
     imperial"
proof -
  let ?s = "\<lparr>cities = initial_cities, isMenuVisible = True, units = metric, locale_tag = ''en''\<rparr>"
  let ?p = "fetchWeather_complete
         (Inr \<lparr>fetched = 21::nat, wd_name = ''Paris'', wd_country = ''FR''\<rparr>)
         (WeatherPage_mount \<lparr>city_id = ''Paris, FR'', city_name = ''Paris,FR''\<rparr> ''en'' metric)"
  have h1: "prop_lang ?p = locale_tag ?s"
    by (simp add: fetchWeather_complete_def fetchWeather_begin_def WeatherPage_mount_def)
  have h2: "prop_units ?p = units ?s"
    by (simp add: fetchWeather_complete_def fetchWeather_begin_def WeatherPage_mount_def)
  have h3: "''en'' \<noteq> locale_tag ?s \<or> imperial \<noteq> units ?s" by simp
  have d: "weatherData ?p = Some \<lparr>fetched = 21, wd_name = ''Paris'', wd_country = ''FR''\<rparr>"
    by (simp add: fetchWeather_complete_def)
  from preference_change_keeps_snapshot [OF h1 h2 h3] d show ?thesis by simp
qed

section \<open>The debounced search\<close>

lemma setSearchInput_changed:
  "text \<noteq> searchInput m \<Longrightarrow>
     setSearchInput now text m =
       (if 2 < length (trim text)
        then m\<lparr>searchInput := text, timer := Some (now + 300, text)\<rparr>
        else m\<lparr>searchInput := text, timer := None, suggestions := []\<rparr>)"
  by (simp add: setSearchInput_def searchInput_effect_def)

lemma keystroke_first:
  assumes "case timer m of None \<Rightarrow> True | Some (due, query) \<Rightarrow> fst k < due"
    and "snd k \<noteq> searchInput m" and "fst k + 300 \<le> T"
  shows "debouncing (fst k) T (issued m) (keystroke k m) \<and> searchInput (keystroke k m) = snd k"
proof -
  from assms(1) have "elapse (fst k) m = m"
    by (auto simp: elapse_def split: option.splits)
  with assms(2,3) show ?thesis
    by (simp add: keystroke_def setSearchInput_changed debouncing_def)
qed

lemma keystroke_next:
  assumes "debouncing t0 T sent m" and "t0 \<le> fst k \<and> fst k < t0 + 300 \<and> fst k + 300 \<le> T"
  shows "debouncing t0 T sent (keystroke k m) \<and> searchInput (keystroke k m) = snd k"
proof -
  from assms have e: "elapse (fst k) m = m"
    by (auto simp: elapse_def debouncing_def split: option.splits)
  show ?thesis
  proof (cases "snd k = searchInput m")
    case True
    with e assms(1) show ?thesis by (simp add: keystroke_def setSearchInput_def)
  next
    case False
    with e assms show ?thesis
      by (auto simp: keystroke_def setSearchInput_changed debouncing_def split: option.splits)
  qed
qed

lemma typing_debouncing:
  assumes "debouncing t0 T sent m"
    and "\<forall>k\<in>set ks. t0 \<le> fst k \<and> fst k < t0 + 300 \<and> fst k + 300 \<le> T"
  shows "debouncing t0 T sent (typing ks m) \<and>
         searchInput (typing ks m) = (if ks = [] then searchInput m else snd (last ks))"
  using assms
proof (induction ks arbitrary: m)
  case Nil
  then show ?case by (simp add: typing_def)
next
  case (Cons k ks)
  from Cons.prems have step: "debouncing t0 T sent (keystroke k m)"
    and inp: "searchInput (keystroke k m) = snd k"
    using keystroke_next [where ?t0.0 = t0 and T = T and sent = sent and m = m and k = k]
    by auto
  from Cons.IH [OF step] Cons.prems(2)
  have "debouncing t0 T sent (typing ks (keystroke k m)) \<and>
        searchInput (typing ks (keystroke k m)) =
          (if ks = [] then searchInput (keystroke k m) else snd (last ks))" by simp
  with inp show ?case by (simp add: typing_def)
qed

lemma elapse_after_burst:
  assumes "debouncing t0 T sent m"
  shows "issued (elapse T m) =
           sent @ (if 2 < length (trim (searchInput m)) then [searchInput m] else []) \<and>
         timer (elapse T m) = None"
proof (cases "timer m")
  case None
  with assms show ?thesis by (simp add: elapse_def debouncing_def)
next
  case (Some a)
  obtain due q where a: "a = (due, q)" by (cases a)
  from assms(1) Some a have q: "q = searchInput m" "2 < length (trim (searchInput m))"
    "issued m = sent" by (simp_all add: debouncing_def)
  from q(2) length_trim_le [of "searchInput m"] have long: "\<not> length (searchInput m) < 3"
    by simp
  from assms Some a have "due \<le> T" by (simp add: debouncing_def)
  with Some a q long show ?thesis by (simp add: elapse_def fetchSuggestions_def)
qed


text \<open>
  Claim C6. Keystrokes carry their time in milliseconds. For a burst of keystrokes that
  all fall within 300 ms of the first one, the first of which changes the text while
  no timer is due, nothing is sent during the burst, and once the quiet period has
  passed exactly one lookup has been sent, for the last text of the burst, when that
  text has more than two characters after trimming, and none otherwise; no timer is
  left. Every keystroke that changes the text replaces whatever timer was pending by
  its own (due 300 ms later) or, when its trimmed text is shorter than three
  characters, by none, and then it clears the suggestions at once; it sends nothing
  itself.
\<close>

theorem one_lookup_per_burst:
  assumes "ks \<noteq> []"
    and "\<forall>k\<in>set ks. fst (hd ks) \<le> fst k \<and> fst k < fst (hd ks) + 300 \<and> fst k + 300 \<le> T"
    and "case timer m of None \<Rightarrow> True | Some (due, query) \<Rightarrow> fst (hd ks) < due"
    and "snd (hd ks) \<noteq> searchInput m"
  shows "issued (typing ks m) = issued m \<and>
         issued (elapse T (typing ks m)) =
           issued m @ (if 2 < length (trim (snd (last ks))) then [snd (last ks)] else []) \<and>
         timer (elapse T (typing ks m)) = None \<and>
         (\<forall>now text m'. text \<noteq> searchInput m' \<longrightarrow>
            timer (setSearchInput now text m') =
              (if 2 < length (trim text) then Some (now + 300, text) else None) \<and>
            issued (setSearchInput now text m') = issued m' \<and>
            (length (trim text) < 3 \<longrightarrow> suggestions (setSearchInput now text m') = []))"
proof -
  from assms(1) obtain k rest where ks: "ks = k # rest" by (cases ks) auto
  let ?m1 = "keystroke k m"
  from assms(2) ks have late: "fst k + 300 \<le> T" by simp
  have pend: "case timer m of None \<Rightarrow> True | Some (due, query) \<Rightarrow> fst k < due"
    using assms(3) unfolding ks list.sel .
  from assms(4) ks have chg: "snd k \<noteq> searchInput m" by simp
  from keystroke_first [OF pend chg late]
  have first: "debouncing (fst k) T (issued m) ?m1" "searchInput ?m1 = snd k" by simp_all
  from assms(2) ks
  have win: "\<forall>k'\<in>set rest. fst k \<le> fst k' \<and> fst k' < fst k + 300 \<and> fst k' + 300 \<le> T"
    by simp
  from typing_debouncing [OF first(1) win] first(2) ks
  have inv: "debouncing (fst k) T (issued m) (typing ks m)"
    and inp: "searchInput (typing ks m) = snd (last ks)"
    by (simp_all add: typing_def)
  from inv have a: "issued (typing ks m) = issued m" by (simp add: debouncing_def)
  from elapse_after_burst [OF inv] inp
  have b: "issued (elapse T (typing ks m)) =
           issued m @ (if 2 < length (trim (snd (last ks))) then [snd (last ks)] else [])"
    and c: "timer (elapse T (typing ks m)) = None" by simp_all
  have d: "\<forall>now text m'. text \<noteq> searchInput m' \<longrightarrow>
            timer (setSearchInput now text m') =
              (if 2 < length (trim text) then Some (now + 300, text) else None) \<and>
            issued (setSearchInput now text m') = issued m' \<and>
            (length (trim text) < 3 \<longrightarrow> suggestions (setSearchInput now text m') = [])"
    by (simp add: setSearchInput_changed)
  from a b c d show ?thesis by blast
qed


theorem one_lookup_per_burst_witness:
  "issued (elapse 600 (typing [(0, ''Lo''), (100, ''Lon''), (250, ''Londo'')] MenuScreen_init)) =
     [''Londo''] \<and>
   issued (typing [(0, ''Lo''), (100, ''Lon''), (250, ''Londo'')] MenuScreen_init) = [] \<and>
   timer (elapse 600 (typing [(0, ''Lo''), (100, ''Lon''), (250, ''Londo'')] MenuScreen_init)) =
     None \<and>
   timer (setSearchInput 0 ''Lo'' MenuScreen_init) = None \<and>
   suggestions (setSearchInput 0 ''Lo'' MenuScreen_init) = [] \<and>
   timer (setSearchInput 100 ''Lon'' (setSearchInput 0 ''Lo'' MenuScreen_init)) =
     Some (400, ''Lon'')"
proof -
  let ?ks = "[(0::nat, ''Lo''), (100, ''Lon''), (250, ''Londo'')]"
  have h1: "?ks \<noteq> []" by simp
  have h2: "\<forall>k\<in>set ?ks. fst (hd ?ks) \<le> fst k \<and> fst k < fst (hd ?ks) + 300 \<and> fst k + 300 \<le> 600"
    by simp
  have h3: "case timer MenuScreen_init of None \<Rightarrow> True
            | Some (due, query) \<Rightarrow> fst (hd ?ks) < due"
    by (simp add: MenuScreen_init_def)
  have h4: "snd (hd ?ks) \<noteq> searchInput MenuScreen_init" by (simp add: MenuScreen_init_def)
  have t1: "trim ''Londo'' = ''Londo''" by code_simp
  have t2: "trim ''Lo'' = ''Lo''" by code_simp
  have t3: "trim ''Lon'' = ''Lon''" by code_simp
  have i0: "issued MenuScreen_init = []" by (simp add: MenuScreen_init_def)
  have s0: "searchInput MenuScreen_init = []" by (simp add: MenuScreen_init_def)
  note burst = one_lookup_per_burst [OF h1 h2 h3 h4]
  from burst have a: "issued (elapse 600 (typing ?ks MenuScreen_init)) = [''Londo'']"
    by (simp add: t1 i0)
  from burst have b: "issued (typing ?ks MenuScreen_init) = []" by (simp add: i0)
  from burst have c: "timer (elapse 600 (typing ?ks MenuScreen_init)) = None" by simp
  from burst have per_key: "str \<noteq> searchInput m' \<Longrightarrow>
      timer (setSearchInput now str m') =
        (if 2 < length (trim str) then Some (now + 300, str) else None) \<and>
      issued (setSearchInput now str m') = issued m' \<and>
      (length (trim str) < 3 \<longrightarrow> suggestions (setSearchInput now str m') = [])"
    for now str m' by blast
  from per_key [where str = "''Lo''" and m' = MenuScreen_init and now = 0] have d: "timer (setSearchInput 0 ''Lo'' MenuScreen_init) = None"
    and e: "suggestions (setSearchInput 0 ''Lo'' MenuScreen_init) = []"
    by (simp_all add: t2 s0)
  have s1: "searchInput (setSearchInput 0 ''Lo'' MenuScreen_init) = ''Lo''"
    by (simp add: setSearchInput_changed s0 t2)
  from per_key [where str = "''Lon''" and m' = "setSearchInput 0 ''Lo'' MenuScreen_init"
      and now = 100]
  have f: "timer (setSearchInput 100 ''Lon'' (setSearchInput 0 ''Lo'' MenuScreen_init)) =
     Some (400, ''Lon'')" by (simp add: t3 s1)
  from a b c d e f show ?thesis by (intro conjI)
qed

end
